theory Spec2Isabelle
  imports Main
begin

section \<open>JavaScript string primitives used by the managers\<close>

text \<open>
  Texts are \<^typ>\<open>string\<close>: a list of 8-bit characters, read as the UTF-16 code units
  below 256 of a JavaScript string. The white space of \<open>String.prototype.trim\<close> and of
  the regular expression class \<open>\s\<close> in that range is TAB, LF, VT, FF, CR, SPACE and
  NBSP; the other white space code points of ECMAScript lie above 255.
\<close>

abbreviation NL :: char where "NL \<equiv> CHR 0x0A"

abbreviation SQ :: char where "SQ \<equiv> CHR 0x27"

abbreviation DQ :: char where "DQ \<equiv> CHR 0x22"

definition isSpace :: "char \<Rightarrow> bool" where
  "isSpace c \<longleftrightarrow> c \<in> {CHR 0x09, CHR 0x0A, CHR 0x0B, CHR 0x0C, CHR 0x0D, CHR 0x20, CHR 0xA0}"

text \<open>\<open>s.trim()\<close>\<close>

definition trim :: "string \<Rightarrow> string" where
  "trim s = rev (dropWhile isSpace (rev (dropWhile isSpace s)))"

text \<open>\<open>s.startsWith(p)\<close>\<close>

definition startsWith :: "string \<Rightarrow> string \<Rightarrow> bool" where
  "startsWith s p \<longleftrightarrow> take (length p) s = p"

text \<open>\<open>s.includes(p)\<close>: \<open>p\<close> occurs at some position of \<open>s\<close>.\<close>

fun includesStr :: "string \<Rightarrow> string \<Rightarrow> bool" where
  "includesStr [] p = (p = [])"
| "includesStr (c # cs) p = (startsWith (c # cs) p \<or> includesStr cs p)"

text \<open>\<open>s.split(sep)\<close> for a separator of one character; the result is never empty.\<close>

fun split :: "char \<Rightarrow> string \<Rightarrow> string list" where
  "split sep [] = [[]]"
| "split sep (c # cs) =
     (if c = sep then [] # split sep cs
      else (case split sep cs of [] \<Rightarrow> [[c]] | x # xs \<Rightarrow> (c # x) # xs))"

text \<open>\<open>xs.join(sep)\<close>\<close>

fun join :: "string \<Rightarrow> string list \<Rightarrow> string" where
  "join sep [] = []"
| "join sep [x] = x"
| "join sep (x # y # ys) = x @ sep @ join sep (y # ys)"

text \<open>\<open>xs[i]\<close>: \<open>undefined\<close> (here \<open>None\<close>) out of range.\<close>

definition nthOpt :: "'a list \<Rightarrow> nat \<Rightarrow> 'a option" where
  "nthOpt xs i = (if i < length xs then Some (xs ! i) else None)"




definition isDigit :: "char \<Rightarrow> bool" where
  "isDigit c \<longleftrightarrow> c \<in> set ''0123456789''"

definition digitVal :: "char \<Rightarrow> nat" where
  "digitVal c = of_char c - 48"

text \<open>
  The replacement text of \<open>s.replace(regexp, template)\<close> (GetSubstitution of ECMAScript):
  in the template \<open>$$\<close> is a dollar sign, \<open>$&\<close> the matched text, \<open>$`\<close> the text before
  the match, \<open>$'\<close> the text after it, and \<open>$n\<close> or \<open>$nn\<close> the capture of that number
  when the pattern has one (two digits first, then one); every other character, and a
  dollar sign in any other position, stands for itself. The patterns here have no named
  group, so \<open>$<\<close> is literal.
\<close>

fun getSubstitution :: "string \<Rightarrow> string \<Rightarrow> string \<Rightarrow> string list \<Rightarrow> string \<Rightarrow> string" where
  "getSubstitution matched pre post caps [] = []"
| "getSubstitution matched pre post caps [c] = [c]"
| "getSubstitution matched pre post caps (c # d # t) =
     (if c \<noteq> CHR ''$'' then c # getSubstitution matched pre post caps (d # t)
      else if d = CHR ''$'' then CHR ''$'' # getSubstitution matched pre post caps t
      else if d = CHR ''&'' then matched @ getSubstitution matched pre post caps t
      else if d = CHR 0x60 then pre @ getSubstitution matched pre post caps t
      else if d = SQ then post @ getSubstitution matched pre post caps t
      else if isDigit d then
        (case t of
           e # t' \<Rightarrow>
             if isDigit e \<and> 1 \<le> 10 * digitVal d + digitVal e
                 \<and> 10 * digitVal d + digitVal e \<le> length caps
             then caps ! (10 * digitVal d + digitVal e - 1)
                    @ getSubstitution matched pre post caps t'
             else if 1 \<le> digitVal d \<and> digitVal d \<le> length caps
             then caps ! (digitVal d - 1) @ getSubstitution matched pre post caps t
             else c # getSubstitution matched pre post caps (d # t)
         | [] \<Rightarrow>
             if 1 \<le> digitVal d \<and> digitVal d \<le> length caps
             then caps ! (digitVal d - 1)
             else [c, d])
      else c # getSubstitution matched pre post caps (d # t))"

text \<open>
  A regular expression without the global flag is tried at each position from the left.
  \<open>matchHere s\<close> is the match that starts at the head of \<open>s\<close>: its length and its
  captures. \<open>regexSearch\<close> is \<open>s.match(regexp)\<close>: the text before the first match, the
  match, its captures and the text after it.
\<close>

fun regexSearch ::
  "(string \<Rightarrow> (nat \<times> string list) option) \<Rightarrow> string \<Rightarrow> string
     \<Rightarrow> (string \<times> string \<times> string list \<times> string) option" where
  "regexSearch matchHere pre [] =
     (case matchHere [] of
        Some (n, caps) \<Rightarrow> Some (pre, [], caps, [])
      | None \<Rightarrow> None)"
| "regexSearch matchHere pre (c # cs) =
     (case matchHere (c # cs) of
        Some (n, caps) \<Rightarrow> Some (pre, take n (c # cs), caps, drop n (c # cs))
      | None \<Rightarrow> regexSearch matchHere (pre @ [c]) cs)"

text \<open>\<open>s.replace(regexp, template)\<close>: the first match only; \<open>s\<close> itself when there is none.\<close>

definition regexReplace ::
  "(string \<Rightarrow> (nat \<times> string list) option) \<Rightarrow> string \<Rightarrow> string \<Rightarrow> string" where
  "regexReplace matchHere template s =
     (case regexSearch matchHere [] s of
        None \<Rightarrow> s
      | Some (pre, matched, caps, post) \<Rightarrow>
          pre @ getSubstitution matched pre post caps template @ post)"

section \<open>Files\<close>

text \<open>
  The file system as the managers use it: the content of each file, the directories made,
  and the calls of \<open>writeFile\<close> in order. \<open>readFile\<close> of a path that is not a file and
  \<open>writeFile\<close> to a directory fail. \<open>path.join\<close> is taken on segments that need no
  normalisation, where it puts a slash between them; \<open>mkdir\<close> records the directory itself.
\<close>

datatype error = TypeError | IOError

record fileSystem =
  files :: "string \<rightharpoonup> string"
  dirs :: "string set"
  writeLog :: "(string \<times> string) list"


definition existsSync :: "fileSystem \<Rightarrow> string \<Rightarrow> bool" where
  "existsSync fs p \<longleftrightarrow> files fs p \<noteq> None \<or> p \<in> dirs fs"

definition readFile :: "fileSystem \<Rightarrow> string \<Rightarrow> error + string" where
  "readFile fs p = (case files fs p of None \<Rightarrow> Inl IOError | Some c \<Rightarrow> Inr c)"

definition writeFile :: "fileSystem \<Rightarrow> string \<Rightarrow> string \<Rightarrow> error + fileSystem" where
  "writeFile fs p c =
     (if p \<in> dirs fs then Inl IOError
      else Inr (fs\<lparr>files := (files fs)(p \<mapsto> c), writeLog := writeLog fs @ [(p, c)]\<rparr>))"


section \<open>The dbt manager\<close>

subsection \<open>Directory convention\<close>

text \<open>\<open>DbtManager.getModelDirectory\<close>\<close>

definition getModelDirectory :: "string \<Rightarrow> string" where
  "getModelDirectory modelName =
     (if startsWith modelName ''stg_'' then ''staging''
      else if startsWith modelName ''int_'' then ''intermediate''
      else if startsWith modelName ''fct_'' \<or> startsWith modelName ''dim_'' then ''marts''
      else ''staging'')"

subsection \<open>Model options and the schema document\<close>

text \<open>\<open>DbtColumn\<close> and \<open>DbtModelOptions\<close>; an optional field is an \<open>option\<close>.\<close>

record DbtColumn =
  col_name :: string
  col_description :: "string option"
  col_type :: "string option"
  col_tests :: "string list option"



text \<open>
  The untyped \<open>schemaData\<close> object: \<open>{ version, models }\<close>, a model \<open>{ name, description?,
  tests?, columns? }\<close>, a column \<open>{ name, description?, tests? }\<close>.
\<close>

record schemaColumn =
  sc_name :: string
  sc_description :: "string option"
  sc_tests :: "string list option"

record schemaModel =
  m_name :: string
  m_description :: "string option"
  m_tests :: "string list option"
  m_columns :: "schemaColumn list option"

record schemaData =
  version :: nat
  models :: "schemaModel list"




subsection \<open>Writing the schema document\<close>





subsection \<open>Reading the schema document\<close>

text \<open>The local variables of the scanning loop of \<open>parseBasicYaml\<close>.\<close>

record parseState =
  ps_models :: "schemaModel list"
  ps_currentModel :: "schemaModel option"
  ps_currentColumns :: "schemaColumn list"
  ps_inColumns :: bool

text \<open>
  \<open>if (currentModel) { if (currentColumns.length > 0) currentModel.columns = currentColumns;
  result.models.push(currentModel) }\<close>: the models of the result after it.
\<close>

definition pushCurrent :: "parseState \<Rightarrow> schemaModel list" where
  "pushCurrent st =
     (case ps_currentModel st of
        None \<Rightarrow> ps_models st
      | Some m \<Rightarrow>
          ps_models st
          @ [if ps_currentColumns st \<noteq> [] then m\<lparr>m_columns := Some (ps_currentColumns st)\<rparr> else m])"

text \<open>
  \<open>trimmed.split(':')[1].trim()\<close>: \<open>trim\<close> of \<open>undefined\<close> raises a TypeError.
\<close>

definition nameOf :: "string \<Rightarrow> error + string" where
  "nameOf trimmed =
     (case nthOpt (split (CHR '':'') trimmed) 1 of
        None \<Rightarrow> Inl TypeError
      | Some v \<Rightarrow> Inr (trim v))"

text \<open>One iteration of the loop over the lines.\<close>

definition parseLine :: "parseState \<Rightarrow> string \<Rightarrow> error + parseState" where
  "parseLine st line =
     (let trimmed = trim line in
      if startsWith trimmed ''- name:'' \<and> \<not> ps_inColumns st then
        (case nameOf trimmed of
           Inl e \<Rightarrow> Inl e
         | Inr n \<Rightarrow>
             Inr (st\<lparr>ps_models := pushCurrent st,
                     ps_currentModel :=
                       Some \<lparr>m_name = n, m_description = None, m_tests = None, m_columns = None\<rparr>,
                     ps_currentColumns := [],
                     ps_inColumns := False\<rparr>))
      else if startsWith trimmed ''description:'' \<and> ps_currentModel st \<noteq> None then
        Inr (st\<lparr>ps_currentModel :=
                  map_option
                    (\<lambda>m. m\<lparr>m_description :=
                               Some (trim (join '':'' (drop 1 (split (CHR '':'') trimmed))))\<rparr>)
                    (ps_currentModel st)\<rparr>)
      else if trimmed = ''columns:'' then
        Inr (st\<lparr>ps_inColumns := True\<rparr>)
      else if startsWith trimmed ''- name:'' \<and> ps_inColumns st then
        (case nameOf trimmed of
           Inl e \<Rightarrow> Inl e
         | Inr n \<Rightarrow>
             Inr (st\<lparr>ps_currentColumns :=
                       ps_currentColumns st
                       @ [\<lparr>sc_name = n, sc_description = None, sc_tests = None\<rparr>]\<rparr>))
      else Inr st)"

text \<open>The loop: the first exception leaves it.\<close>

fun parseLines :: "parseState \<Rightarrow> string list \<Rightarrow> error + parseState" where
  "parseLines st [] = Inr st"
| "parseLines st (l # ls) =
     (case parseLine st l of Inl e \<Rightarrow> Inl e | Inr st' \<Rightarrow> parseLines st' ls)"

definition initialState :: parseState where
  "initialState =
     \<lparr>ps_models = [], ps_currentModel = None, ps_currentColumns = [], ps_inColumns = False\<rparr>"

text \<open>The body of the \<open>try\<close> block of \<open>parseBasicYaml\<close>.\<close>

definition parseBody :: "string \<Rightarrow> error + schemaData" where
  "parseBody content =
     (case parseLines initialState (split NL content) of
        Inl e \<Rightarrow> Inl e
      | Inr st \<Rightarrow> Inr \<lparr>version = 2, models = pushCurrent st\<rparr>)"

text \<open>\<open>DbtManager.parseBasicYaml\<close>: the \<open>catch\<close> block returns the empty document.\<close>

definition emptySchema :: schemaData where
  "emptySchema = \<lparr>version = 2, models = []\<rparr>"

definition parseBasicYaml :: "string \<Rightarrow> schemaData" where
  "parseBasicYaml content =
     (case parseBody content of Inl e \<Rightarrow> emptySchema | Inr d \<Rightarrow> d)"

subsection \<open>The configuration header\<close>


text \<open>
  The regular expression \<open>/\{\{ config\([^}]+\) \}\}/\<close> at the head of \<open>s\<close>: after
  \<open>{{ config(\<close> the class \<open>[^}]+\<close> can only end two characters before the first
  closing brace, so the characters up to that brace are at least three, the last two are
  \<open>) \<close>, and two closing braces follow.
\<close>

definition configHere :: "string \<Rightarrow> (nat \<times> string list) option" where
  "configHere s =
     (if startsWith s ''{{ config('' then
        (let r = drop 10 s;
             run = takeWhile (\<lambda>c. c \<noteq> CHR ''}'') r;
             rest = dropWhile (\<lambda>c. c \<noteq> CHR ''}'') r
         in if 3 \<le> length run \<and> drop (length run - 2) run = '') ''
               \<and> startsWith rest ''}}''
            then Some (10 + length run + 2, [])
            else None)
      else None)"

text \<open>\<open>lines.findIndex(pred)\<close>: \<open>None\<close> for \<open>-1\<close>.\<close>

fun findIndex :: "('a \<Rightarrow> bool) \<Rightarrow> 'a list \<Rightarrow> nat option" where
  "findIndex P [] = None"
| "findIndex P (x # xs) = (if P x then Some 0 else map_option Suc (findIndex P xs))"

text \<open>The configuration line that \<open>addModelConfig\<close> builds.\<close>

definition configLine :: "string \<Rightarrow> string list \<Rightarrow> string" where
  "configLine materializedAs tags =
     ''{{ config(''
     @ join '', ''
         ((''materialized='' @ [SQ] @ materializedAs @ [SQ])
          # (if tags \<noteq> []
             then [''tags=['' @ [SQ] @ join ([SQ] @ '', '' @ [SQ]) tags @ [SQ] @ '']'']
             else []))
     @ '') }}''"

text \<open>
  The test of \<open>findIndex\<close>: \<open>line.trim() && !line.trim().startsWith('--')\<close>, a line that
  is neither blank nor a comment.
\<close>

definition nonCommentLine :: "string \<Rightarrow> bool" where
  "nonCommentLine line \<longleftrightarrow> trim line \<noteq> [] \<and> \<not> startsWith (trim line) ''--''"

text \<open>\<open>DbtManager.addModelConfig\<close>\<close>

definition addModelConfig :: "string \<Rightarrow> string \<Rightarrow> string list \<Rightarrow> string" where
  "addModelConfig sql materializedAs tags =
     (if includesStr sql ''{{ config('' then
        regexReplace configHere (configLine materializedAs tags) sql
      else
        (let lines = split NL sql in
         case findIndex nonCommentLine lines of
           None \<Rightarrow> configLine materializedAs tags @ [NL, NL] @ sql
         | Some i \<Rightarrow>
             join [NL] (take i lines @ [configLine materializedAs tags, []] @ drop i lines)))"

subsection \<open>Updating the schema file\<close>







section \<open>The Dagster manager\<close>

text \<open>
  The regular expression \<open>/__all__\s*=\s*\[(.*?)\]/s\<close> at the head of \<open>s\<close>. Neither
  \<open>=\<close> nor \<open>[\<close> is white space, so each \<open>\s*\<close> takes the whole run of white space;
  with the flag \<open>s\<close> the lazy group takes every character up to the first \<open>]\<close>.
\<close>

definition allHere :: "string \<Rightarrow> (nat \<times> string list) option" where
  "allHere s =
     (if startsWith s ''__all__'' then
        (case dropWhile isSpace (drop 7 s) of
           c # r1 \<Rightarrow>
             if c = CHR ''='' then
               (case dropWhile isSpace r1 of
                  d # r2 \<Rightarrow>
                    if d = CHR ''['' \<and> CHR '']'' \<in> set r2 then
                      (let g = takeWhile (\<lambda>x. x \<noteq> CHR '']'') r2
                       in Some (length s - length r2 + length g + 1, [g]))
                    else None
                | [] \<Rightarrow> None)
             else None
         | [] \<Rightarrow> None)
      else None)"

text \<open>\<open>item.trim().replace(/['"]/g, '')\<close> on each piece of the list text.\<close>

definition stripQuotes :: "string \<Rightarrow> string" where
  "stripQuotes s = filter (\<lambda>c. c \<noteq> SQ \<and> c \<noteq> DQ) s"

definition existingItems :: "string \<Rightarrow> string list" where
  "existingItems g = map (\<lambda>item. stripQuotes (trim item)) (split (CHR '','') g)"

definition importLine :: "string \<Rightarrow> string" where
  "importLine itemName = ''from .'' @ itemName @ '' import '' @ itemName"

text \<open>
  The text that \<open>updateInitFile\<close> writes for the content it read, or \<open>None\<close> when it
  returns before the write. The pattern has one group, so the captures of a match are one
  text, \<open>allMatch[1]\<close>: the head of \<open>caps\<close>.
\<close>

definition updateInitContent :: "string \<Rightarrow> string \<Rightarrow> string option" where
  "updateInitContent content itemName =
     (if includesStr content (importLine itemName) then None
      else
        (let content1 = content @ importLine itemName @ [NL] in
         case regexSearch allHere [] content1 of
           Some (pre, matched, caps, post) \<Rightarrow>
             (if itemName \<notin> set (existingItems (hd caps)) then
                Some (regexReplace allHere
                        (''__all__ = [''
                         @ join '', '' (filter (\<lambda>item. item \<noteq> []) (existingItems (hd caps))
                                       @ [[DQ] @ itemName @ [DQ]])
                         @ '']'')
                        content1)
              else Some content1)
         | None \<Rightarrow>
             Some (content1 @ [NL] @ ''__all__ = ['' @ [DQ] @ itemName @ [DQ] @ '']'' @ [NL])))"

text \<open>\<open>DagsterManager.updateInitFile\<close>; its third parameter \<open>_itemType\<close> is not used.\<close>

definition updateInitFile :: "string \<Rightarrow> string \<Rightarrow> fileSystem \<Rightarrow> error + fileSystem" where
  "updateInitFile initPath itemName fs =
     (case (if existsSync fs initPath then readFile fs initPath else Inr []) of
        Inl e \<Rightarrow> Inl e
      | Inr content \<Rightarrow>
          (case updateInitContent content itemName of
             None \<Rightarrow> Inr fs
           | Some content' \<Rightarrow> writeFile fs initPath content'))"

section \<open>What the reader recovers\<close>












section \<open>The exported symbols of an index file\<close>



text \<open>The content of the index file after a call of \<open>updateInitFile\<close> that read \<open>content\<close>.\<close>

definition register :: "string \<Rightarrow> string \<Rightarrow> string" where
  "register content itemName =
     (case updateInitContent content itemName of None \<Rightarrow> content | Some c \<Rightarrow> c)"




section \<open>Counting configuration headers\<close>

text \<open>
  The number of positions of a text at which the pattern starts; a configuration header
  starts where \<open>addModelConfig\<close> looks for one, at \<open>{{ config(\<close>.
\<close>

fun countOcc :: "string \<Rightarrow> string \<Rightarrow> nat" where
  "countOcc p [] = (if p = [] then 1 else 0)"
| "countOcc p (c # cs) = (if startsWith (c # cs) p then 1 else 0) + countOcc p cs"

definition headerCount :: "string \<Rightarrow> nat" where
  "headerCount s = countOcc ''{{ config('' s"

text \<open>The occurrences that start in the first of two adjoining texts.\<close>

fun countIn :: "string \<Rightarrow> string \<Rightarrow> string \<Rightarrow> nat" where
  "countIn p [] b = 0"
| "countIn p (c # a) b = (if startsWith (c # a @ b) p then 1 else 0) + countIn p a b"

text \<open>The options between the parentheses of the configuration line.\<close>

definition configArgs :: "string \<Rightarrow> string list \<Rightarrow> string" where
  "configArgs m tags =
     join '', ''
       ((''materialized='' @ [SQ] @ m @ [SQ])
        # (if tags \<noteq> []
           then [''tags=['' @ [SQ] @ join ([SQ] @ '', '' @ [SQ]) tags @ [SQ] @ '']'']
           else []))"

section \<open>Properties\<close>

subsection \<open>Directory dispatch\<close>

text \<open>
  C3. \<open>getModelDirectory\<close> is a total function with no error result. For every suffix
  \<open>x\<close> the names \<open>stg_x\<close>, \<open>int_x\<close>, \<open>fct_x\<close>, \<open>dim_x\<close> go to staging,
  intermediate, marts and marts; \<open>other_x\<close> goes to staging; and every name with none of
  the four prefixes goes to staging.
\<close>

theorem getModelDirectory_dispatch:
  "getModelDirectory (''stg_'' @ x) = ''staging''
   \<and> getModelDirectory (''int_'' @ x) = ''intermediate''
   \<and> getModelDirectory (''fct_'' @ x) = ''marts''
   \<and> getModelDirectory (''dim_'' @ x) = ''marts''
   \<and> getModelDirectory (''other_'' @ x) = ''staging''
   \<and> (\<not> startsWith n ''stg_'' \<and> \<not> startsWith n ''int_'' \<and> \<not> startsWith n ''fct_''
        \<and> \<not> startsWith n ''dim_'' \<longrightarrow> getModelDirectory n = ''staging'')"
  by (simp add: getModelDirectory_def startsWith_def)

theorem getModelDirectory_dispatch_witness:
  "\<not> startsWith ''unknown_model'' ''stg_'' \<and> \<not> startsWith ''unknown_model'' ''int_''
   \<and> \<not> startsWith ''unknown_model'' ''fct_'' \<and> \<not> startsWith ''unknown_model'' ''dim_''
   \<and> getModelDirectory ''unknown_model'' = ''staging''"
  using getModelDirectory_dispatch [of "''x''" "''unknown_model''"]
  by (simp add: startsWith_def)

subsection \<open>Reading never fails\<close>

lemma length_split: "length (split c s) = Suc (length (filter (\<lambda>x. x = c) s))"
  by (induction s) (auto split: list.splits)

lemma split_not_Nil: "split c s \<noteq> []"
  using length_split [of c s] by (cases "split c s") simp_all

lemma startsWith_set: "startsWith s p \<Longrightarrow> set p \<subseteq> set s"
  unfolding startsWith_def using set_take_subset [of "length p" s] by auto

lemma nameOf_total:
  assumes "startsWith t ''- name:''"
  shows "\<exists>n. nameOf t = Inr n"
proof -
  from assms have "CHR '':'' \<in> set t" using startsWith_set by fastforce
  then have "filter (\<lambda>x. x = CHR '':'') t \<noteq> []"
    by (simp add: filter_empty_conv)
  then have "1 < length (split (CHR '':'') t)"
    by (simp add: length_split)
  then show ?thesis by (simp add: nameOf_def nthOpt_def)
qed

lemma parseLine_total: "\<exists>st'. parseLine st l = Inr st'"
proof (cases "startsWith (trim l) ''- name:''")
  case True
  then obtain n where "nameOf (trim l) = Inr n" using nameOf_total by blast
  then show ?thesis by (simp add: parseLine_def Let_def)
next
  case False
  then show ?thesis by (simp add: parseLine_def Let_def)
qed

lemma parseLines_total: "\<exists>st'. parseLines st ls = Inr st'"
proof (induction ls arbitrary: st)
  case Nil
  show ?case by simp
next
  case (Cons l ls)
  obtain st1 where "parseLine st l = Inr st1" using parseLine_total by blast
  with Cons show ?case by simp
qed

lemma parseLine_unread:
  assumes "\<not> startsWith (trim l) ''- name:''" "ps_currentModel st = None" "ps_models st = []"
    and "parseLine st l = Inr st'"
  shows "ps_currentModel st' = None \<and> ps_models st' = []"
  using assms by (auto simp add: parseLine_def Let_def split: if_splits)

lemma parseLines_unread:
  assumes "\<forall>l \<in> set ls. \<not> startsWith (trim l) ''- name:''"
    and "ps_currentModel st = None" "ps_models st = []"
    and "parseLines st ls = Inr st'"
  shows "ps_currentModel st' = None \<and> ps_models st' = []"
  using assms
proof (induction ls arbitrary: st)
  case Nil
  then show ?case by simp
next
  case (Cons l ls)
  obtain st1 where st1: "parseLine st l = Inr st1" using parseLine_total by blast
  with Cons.prems have "ps_currentModel st1 = None \<and> ps_models st1 = []"
    using parseLine_unread [of l st st1] by simp
  moreover from Cons.prems st1 have "parseLines st1 ls = Inr st'" by simp
  ultimately show ?case using Cons.IH [of st1] Cons.prems(1) by simp
qed

text \<open>
  C7. For every text \<open>parseBasicYaml\<close> returns a document: the body of its \<open>try\<close> block
  raises no error (the index \<open>[1]\<close> is only taken of a line that holds a colon), the
  document has version 2, and a text none of whose lines is a \<open>- name:\<close> line gives the
  empty document.
\<close>

theorem parseBasicYaml_total:
  "(\<exists>d. parseBody content = Inr d \<and> parseBasicYaml content = d)
   \<and> version (parseBasicYaml content) = 2
   \<and> ((\<forall>l \<in> set (split NL content). \<not> startsWith (trim l) ''- name:'')
        \<longrightarrow> parseBasicYaml content = emptySchema)"
proof -
  obtain st where st: "parseLines initialState (split NL content) = Inr st"
    using parseLines_total by blast
  then have body: "parseBody content = Inr \<lparr>version = 2, models = pushCurrent st\<rparr>"
    by (simp add: parseBody_def)
  have "parseBasicYaml content = emptySchema"
    if "\<forall>l \<in> set (split NL content). \<not> startsWith (trim l) ''- name:''"
  proof -
    have "ps_currentModel st = None \<and> ps_models st = []"
      using parseLines_unread [OF that _ _ st] by (simp add: initialState_def)
    then show ?thesis
      by (simp add: parseBasicYaml_def body pushCurrent_def emptySchema_def)
  qed
  then show ?thesis by (simp add: parseBasicYaml_def body)
qed

theorem parseBasicYaml_total_witness:
  "parseBasicYaml (''models: [}'' @ [NL] @ ''  name - x'') = emptySchema"
proof -
  have "\<forall>l \<in> set (split NL (''models: [}'' @ [NL] @ ''  name - x'')). \<not> startsWith (trim l) ''- name:''"
    by (simp add: startsWith_def trim_def isSpace_def)
  with parseBasicYaml_total [of "''models: [}'' @ [NL] @ ''  name - x''"] show ?thesis by blast
qed

subsection \<open>Lines, fields and white space\<close>



lemma join_split: "join [c] (split c s) = s"
proof (induction s)
  case Nil
  show ?case by simp
next
  case (Cons a s)
  show ?case
  proof (cases "a = c")
    case True
    with Cons show ?thesis by (cases "split c s") (simp_all add: split_not_Nil)
  next
    case False
    with Cons show ?thesis
      by (cases "split c s"; cases "tl (split c s)") (auto simp add: split_not_Nil)
  qed
qed









subsection \<open>The lines of a written document, read one by one\<close>

lemma startsWith_append: "startsWith (p @ s) p"
  by (simp add: startsWith_def)

lemma startsWith_self: "startsWith p p"
  by (simp add: startsWith_def)








lemma parseLine_other:
  assumes "trim l = t" "\<not> startsWith t ''- name:''" "\<not> startsWith t ''description:''" "t \<noteq> ''columns:''"
  shows "parseLine st l = Inr st"
  using assms by (simp add: parseLine_def Let_def)




















subsection \<open>Writing, reading and writing again\<close>




subsection \<open>Updating a schema file\<close>











subsection \<open>Generating a model with an empty name\<close>






subsection \<open>The pattern of the exported-symbols list\<close>

lemma startsWith_iff: "startsWith s p \<longleftrightarrow> (\<exists>r. s = p @ r)"
proof
  assume "startsWith s p"
  then have "s = p @ drop (length p) s"
    unfolding startsWith_def by (metis append_take_drop_id)
  then show "\<exists>r. s = p @ r" ..
next
  assume "\<exists>r. s = p @ r"
  then show "startsWith s p" by (auto simp add: startsWith_def)
qed

lemma dropWhile_bracket:
  assumes "CHR '']'' \<in> set r"
  shows "\<exists>rest. r = takeWhile (\<lambda>x. x \<noteq> CHR '']'') r @ CHR '']'' # rest"
proof -
  let ?P = "\<lambda>x. x \<noteq> CHR '']''"
  from assms have "dropWhile ?P r \<noteq> []" by auto
  then obtain c rest where d: "dropWhile ?P r = c # rest" by (cases "dropWhile ?P r") auto
  then have "\<not> ?P c" using hd_dropWhile [of ?P r] by auto
  with d have "dropWhile ?P r = CHR '']'' # rest" by simp
  then have "r = takeWhile ?P r @ CHR '']'' # rest"
    using takeWhile_dropWhile_id [of ?P r] by simp
  then show ?thesis ..
qed

lemma allHere_elim:
  assumes "allHere s = Some (n, caps)"
  shows "\<exists>w1 w2 g rest.
           s = ''__all__'' @ w1 @ ''='' @ w2 @ ''['' @ g @ '']'' @ rest
           \<and> (\<forall>c \<in> set w1. isSpace c) \<and> (\<forall>c \<in> set w2. isSpace c)
           \<and> CHR '']'' \<notin> set g \<and> caps = [g]
           \<and> n = length (''__all__'' @ w1 @ ''='' @ w2 @ ''['' @ g @ '']'')"
proof -
  from assms have sw: "startsWith s ''__all__''"
    by (simp add: allHere_def split: if_splits)
  then obtain r0 where s: "s = ''__all__'' @ r0" using startsWith_iff by blast
  then have r0: "drop 7 s = r0" by simp
  from assms sw obtain r1 where e1: "dropWhile isSpace r0 = CHR ''='' # r1"
    by (auto simp add: allHere_def r0 split: if_splits list.splits)
  from assms sw e1 obtain r2 where e2: "dropWhile isSpace r1 = CHR ''['' # r2"
      and br: "CHR '']'' \<in> set r2"
      and n: "n = length s - length r2 + length (takeWhile (\<lambda>x. x \<noteq> CHR '']'') r2) + 1"
      and caps: "caps = [takeWhile (\<lambda>x. x \<noteq> CHR '']'') r2]"
    by (auto simp add: allHere_def r0 Let_def split: if_splits list.splits)
  define g where "g = takeWhile (\<lambda>x. x \<noteq> CHR '']'') r2"
  define w1 where "w1 = takeWhile isSpace r0"
  define w2 where "w2 = takeWhile isSpace r1"
  from br obtain rest where r2: "r2 = g @ CHR '']'' # rest"
    unfolding g_def using dropWhile_bracket by blast
  have "r0 = w1 @ CHR ''='' # r1"
    unfolding w1_def using takeWhile_dropWhile_id [of isSpace r0] e1 by simp
  moreover have "r1 = w2 @ CHR ''['' # r2"
    unfolding w2_def using takeWhile_dropWhile_id [of isSpace r1] e2 by simp
  ultimately have dec: "s = ''__all__'' @ w1 @ ''='' @ w2 @ ''['' @ g @ '']'' @ rest"
    using s r2 by simp
  then have "length s - length r2 = length (''__all__'' @ w1 @ ''='' @ w2 @ ''['')"
    using r2 by simp
  with n have "n = length (''__all__'' @ w1 @ ''='' @ w2 @ ''['' @ g @ '']'')"
    by (simp add: g_def)
  moreover have "\<forall>c \<in> set w1. isSpace c" "\<forall>c \<in> set w2. isSpace c" "CHR '']'' \<notin> set g"
    unfolding w1_def w2_def g_def by (auto dest: set_takeWhileD)
  moreover have "caps = [g]" using caps by (simp add: g_def)
  ultimately show ?thesis using dec by blast
qed

lemma allHere_intro:
  assumes "\<forall>c \<in> set w1. isSpace c" "\<forall>c \<in> set w2. isSpace c" "CHR '']'' \<notin> set g"
  shows "allHere (''__all__'' @ w1 @ ''='' @ w2 @ ''['' @ g @ '']'' @ rest)
     = Some (length (''__all__'' @ w1 @ ''='' @ w2 @ ''['' @ g @ '']''), [g])"
proof -
  let ?s = "''__all__'' @ w1 @ ''='' @ w2 @ ''['' @ g @ '']'' @ rest"
  have 1: "startsWith ?s ''__all__''" by (simp add: startsWith_def)
  have 2: "dropWhile isSpace (drop 7 ?s) = CHR ''='' # (w2 @ ''['' @ g @ '']'' @ rest)"
    using assms(1) by (simp add: dropWhile_append isSpace_def)
  have 3: "dropWhile isSpace (w2 @ ''['' @ g @ '']'' @ rest) = CHR ''['' # (g @ '']'' @ rest)"
    using assms(2) by (simp add: dropWhile_append isSpace_def)
  have 4: "takeWhile (\<lambda>x. x \<noteq> CHR '']'') (g @ '']'' @ rest) = g"
    using assms(3) by (simp add: takeWhile_append)
  show ?thesis
    unfolding allHere_def by (simp only: 1 2 3 4 if_True list.case Let_def) simp
qed

lemma allHere_append:
  assumes "allHere s = Some (n, caps)"
  shows "allHere (s @ t) = Some (n, caps)"
proof -
  from allHere_elim [OF assms] obtain w1 w2 g rest where
    s: "s = ''__all__'' @ w1 @ ''='' @ w2 @ ''['' @ g @ '']'' @ rest"
    and w: "\<forall>c \<in> set w1. isSpace c" "\<forall>c \<in> set w2. isSpace c" "CHR '']'' \<notin> set g"
    and c: "caps = [g]" "n = length (''__all__'' @ w1 @ ''='' @ w2 @ ''['' @ g @ '']'')"
    by blast
  have "s @ t = ''__all__'' @ w1 @ ''='' @ w2 @ ''['' @ g @ '']'' @ (rest @ t)"
    by (simp add: s)
  then show ?thesis using allHere_intro [OF w, of "rest @ t"] c by simp
qed


lemma includesStr_iff: "includesStr s p \<longleftrightarrow> (\<exists>a b. s = a @ p @ b)"
proof (induction s)
  case Nil
  show ?case by auto
next
  case (Cons c cs)
  show ?case
  proof
    assume "includesStr (c # cs) p"
    then consider "startsWith (c # cs) p" | "includesStr cs p" by auto
    then show "\<exists>a b. c # cs = a @ p @ b"
    proof cases
      case 1
      then obtain r where "c # cs = p @ r" using startsWith_iff by blast
      then have "c # cs = [] @ p @ r" by simp
      then show ?thesis by blast
    next
      case 2
      with Cons obtain a b where "cs = a @ p @ b" by blast
      then have "c # cs = (c # a) @ p @ b" by simp
      then show ?thesis by blast
    qed
  next
    assume "\<exists>a b. c # cs = a @ p @ b"
    then obtain a b where ab: "c # cs = a @ p @ b" by blast
    show "includesStr (c # cs) p"
    proof (cases a)
      case Nil
      with ab have "startsWith (c # cs) p" using startsWith_iff by auto
      then show ?thesis by simp
    next
      case (Cons x a')
      with ab have "cs = a' @ p @ b" by simp
      with Cons.IH have "includesStr cs p" by blast
      then show ?thesis by simp
    qed
  qed
qed

lemma regexSearch_here:
  "mh v = Some (n, caps) \<Longrightarrow> regexSearch mh acc v = Some (acc, take n v, caps, drop n v)"
  by (cases v) simp_all

lemma regexSearch_skip:
  "\<forall>k < length u. mh (drop k u @ v) = None \<Longrightarrow>
     regexSearch mh acc (u @ v) = regexSearch mh (acc @ u) v"
proof (induction u arbitrary: acc)
  case Nil
  show ?case by simp
next
  case (Cons c u)
  from Cons.prems have "mh (c # u @ v) = None" by fastforce
  moreover from Cons.prems have "\<forall>k < length u. mh (drop k u @ v) = None" by fastforce
  ultimately show ?case using Cons.IH [of "acc @ [c]"] by simp
qed

lemma regexSearch_decomp:
  "regexSearch mh acc s = Some (pre, m, caps, post) \<Longrightarrow>
     \<exists>u v n. s = u @ v \<and> pre = acc @ u \<and> mh v = Some (n, caps) \<and> m = take n v \<and> post = drop n v"
proof (induction s arbitrary: acc)
  case Nil
  then obtain n where "mh [] = Some (n, caps)" "pre = acc" "m = []" "post = []"
    by (auto split: option.splits)
  then show ?case by simp
next
  case (Cons c cs)
  show ?case
  proof (cases "mh (c # cs)")
    case (Some r)
    obtain n caps' where r: "r = (n, caps')" by (cases r)
    with Some Cons.prems have "pre = acc" "m = take n (c # cs)" "caps' = caps" "post = drop n (c # cs)"
      by simp_all
    with Some r have "c # cs = [] @ (c # cs) \<and> pre = acc @ [] \<and> mh (c # cs) = Some (n, caps)
        \<and> m = take n (c # cs) \<and> post = drop n (c # cs)" by simp
    then show ?thesis by blast
  next
    case None
    with Cons.prems have "regexSearch mh (acc @ [c]) cs = Some (pre, m, caps, post)" by simp
    from Cons.IH [OF this] obtain u v n where "cs = u @ v" "pre = (acc @ [c]) @ u"
        "mh v = Some (n, caps)" "m = take n v" "post = drop n v" by blast
    then have "c # cs = (c # u) @ v \<and> pre = acc @ (c # u) \<and> mh v = Some (n, caps)
        \<and> m = take n v \<and> post = drop n v" by simp
    then show ?thesis by blast
  qed
qed

lemma regexSearch_None:
  "(\<And>v. mh v = None) \<Longrightarrow> regexSearch mh acc s = None"
  by (induction s arbitrary: acc) simp_all





subsection \<open>Registering a symbol twice\<close>

lemma suffix_after_bracket:
  assumes "a @ t = b @ CHR '']'' # rest" "CHR '']'' \<notin> set t"
  shows "\<exists>r. rest = r @ t"
proof -
  from assms(1) have "a @ t = (b @ '']'') @ rest" by simp
  then obtain us where "a = (b @ '']'') @ us \<and> us @ t = rest \<or> a @ us = b @ '']'' \<and> t = us @ rest"
    unfolding append_eq_append_conv2 by blast
  then show ?thesis
  proof
    assume "a = (b @ '']'') @ us \<and> us @ t = rest"
    then show ?thesis by blast
  next
    assume *: "a @ us = b @ '']'' \<and> t = us @ rest"
    show ?thesis
    proof (cases "us = []")
      case True
      with * have "rest = [] @ t" by simp
      then show ?thesis by blast
    next
      case False
      with * have "last us = CHR '']''" by (metis last_appendR last_snoc)
      with False have "CHR '']'' \<in> set us" using last_in_set by metis
      with * assms(2) show ?thesis by simp
    qed
  qed
qed

lemma search_after_bracket:
  assumes "regexSearch allHere [] (c @ t) = Some (pre, m, caps, post)" "CHR '']'' \<notin> set t"
  shows "\<exists>r. post = r @ t"
proof -
  from regexSearch_decomp [OF assms(1)] obtain u v n where
    uv: "c @ t = u @ v" "allHere v = Some (n, caps)" "post = drop n v" by blast
  from allHere_elim [OF uv(2)] obtain w1 w2 g rest where
    v: "v = ''__all__'' @ w1 @ ''='' @ w2 @ ''['' @ g @ '']'' @ rest"
    and n: "n = length (''__all__'' @ w1 @ ''='' @ w2 @ ''['' @ g @ '']'')" by blast
  have "v = (''__all__'' @ w1 @ ''='' @ w2 @ ''['' @ g @ '']'') @ rest" using v by simp
  then have "drop n v = rest" unfolding n by (metis append_eq_conv_conj)
  with uv(3) have post: "post = rest" by simp
  have "c @ t = (u @ ''__all__'' @ w1 @ ''='' @ w2 @ ''['' @ g) @ CHR '']'' # rest"
    using uv(1) v by simp
  from suffix_after_bracket [OF this assms(2)] post show ?thesis by simp
qed

lemma written_includes:
  assumes "CHR '']'' \<notin> set itemName" "updateInitContent content itemName = Some c'"
  shows "includesStr c' (importLine itemName)"
proof -
  let ?imp = "importLine itemName"
  let ?c1 = "content @ ?imp @ [NL]"
  have nb: "CHR '']'' \<notin> set (?imp @ [NL])" using assms(1) by (simp add: importLine_def)
  show ?thesis
  proof (cases "regexSearch allHere [] ?c1")
    case None
    with assms(2) have "c' = content @ ?imp @ ([NL] @ [NL] @ ''__all__ = ['' @ [DQ] @ itemName @ [DQ] @ '']'' @ [NL])"
      by (simp add: updateInitContent_def split: if_splits)
    then show ?thesis unfolding includesStr_iff by blast
  next
    case (Some r)
    obtain pre m caps post where r: "r = (pre, m, caps, post)" by (cases r)
    from Some r search_after_bracket [OF _ nb] obtain q where q: "post = q @ ?imp @ [NL]"
      by blast
    show ?thesis
    proof (cases "itemName \<in> set (existingItems (hd caps))")
      case True
      with assms(2) Some r have "c' = content @ ?imp @ [NL]"
        by (simp add: updateInitContent_def split: if_splits)
      then show ?thesis unfolding includesStr_iff by blast
    next
      case False
      with assms(2) Some r obtain x where "c' = pre @ x @ post"
        by (auto simp add: updateInitContent_def regexReplace_def split: if_splits)
      with q have "c' = (pre @ x @ q) @ ?imp @ [NL]" by simp
      then show ?thesis unfolding includesStr_iff by blast
    qed
  qed
qed

text \<open>
  C1, as stated for every symbol name, fails: a name may itself hold the pattern of the
  list. With the name \<open>__all__=[]\<close> and no index file, the first call rewrites the match
  inside the import line it has just appended, so the second call does not find the line,
  appends it again and writes a different text.
\<close>

theorem updateInitFile_idempotent_counterexample:
  "(case updateInitFile ''assets/__init__.py'' ''__all__=[]''
           \<lparr>files = Map.empty, dirs = {}, writeLog = []\<rparr> of
      Inl e \<Rightarrow> None
    | Inr fs1 \<Rightarrow> files fs1 ''assets/__init__.py'')
   = Some (''from .__all__ = ['' @ [DQ] @ ''__all__=[]'' @ [DQ] @ ''] import __all__=[]'' @ [NL])
   \<and> (case updateInitFile ''assets/__init__.py'' ''__all__=[]''
           \<lparr>files = Map.empty, dirs = {}, writeLog = []\<rparr> of
      Inl e \<Rightarrow> None
    | Inr fs1 \<Rightarrow>
        (case updateInitFile ''assets/__init__.py'' ''__all__=[]'' fs1 of
           Inl e \<Rightarrow> None
         | Inr fs2 \<Rightarrow> files fs2 ''assets/__init__.py''))
   = Some (''from .__all__ = [__all__=[, '' @ [DQ] @ ''__all__=[]'' @ [DQ] @ '']''
           @ [DQ] @ ''] import __all__=[]'' @ [NL]
           @ ''from .__all__=[] import __all__=[]'' @ [NL])
   \<and> (case updateInitFile ''assets/__init__.py'' ''__all__=[]''
           \<lparr>files = Map.empty, dirs = {}, writeLog = []\<rparr> of
      Inl e \<Rightarrow> None
    | Inr fs1 \<Rightarrow>
        (case updateInitFile ''assets/__init__.py'' ''__all__=[]'' fs1 of
           Inl e \<Rightarrow> None
         | Inr fs2 \<Rightarrow> Some (files fs2 ''assets/__init__.py'' = files fs1 ''assets/__init__.py'')))
   = Some False"
  by code_simp

text \<open>
  C1, amended. For every symbol name without the character \<open>]\<close> (every identifier is
  one), whenever a call of \<open>updateInitFile\<close> returns, a second call with the same name
  returns the file system of the first: the same content, and no further write.
\<close>

theorem updateInitFile_idempotent:
  assumes "CHR '']'' \<notin> set itemName" "updateInitFile initPath itemName fs = Inr fs1"
  shows "updateInitFile initPath itemName fs1 = Inr fs1"
proof -
  from assms(2) obtain content where
    content: "(if existsSync fs initPath then readFile fs initPath else Inr []) = Inr content"
    by (auto simp add: updateInitFile_def split: sum.splits)
  show ?thesis
  proof (cases "updateInitContent content itemName")
    case None
    with assms(2) content have "fs1 = fs" by (simp add: updateInitFile_def)
    with assms(2) show ?thesis by simp
  next
    case (Some c')
    with assms(2) content have w: "writeFile fs initPath c' = Inr fs1"
      by (simp add: updateInitFile_def)
    then have f: "files fs1 initPath = Some c'"
      by (auto simp add: writeFile_def split: if_splits)
    have "includesStr c' (importLine itemName)"
      using assms(1) Some by (rule written_includes)
    then have "updateInitContent c' itemName = None" by (simp add: updateInitContent_def)
    with f show ?thesis by (simp add: updateInitFile_def existsSync_def readFile_def)
  qed
qed

theorem updateInitFile_idempotent_witness:
  "(case updateInitFile ''assets/__init__.py'' ''a1''
           \<lparr>files = Map.empty, dirs = {}, writeLog = []\<rparr> of
      Inl e \<Rightarrow> None
    | Inr fs1 \<Rightarrow>
        (case updateInitFile ''assets/__init__.py'' ''a1'' fs1 of
           Inl e \<Rightarrow> None
         | Inr fs2 \<Rightarrow> Some (files fs2 ''assets/__init__.py'', writeLog fs2)))
   = Some (Some (''from .a1 import a1'' @ [NL, NL] @ ''__all__ = ['' @ [DQ] @ ''a1'' @ [DQ] @ '']'' @ [NL]),
           [(''assets/__init__.py'',
             ''from .a1 import a1'' @ [NL, NL] @ ''__all__ = ['' @ [DQ] @ ''a1'' @ [DQ] @ '']'' @ [NL])])"
proof -
  let ?fs = "\<lparr>files = Map.empty, dirs = {}, writeLog = []\<rparr>"
  let ?c = "''from .a1 import a1'' @ [NL, NL] @ ''__all__ = ['' @ [DQ] @ ''a1'' @ [DQ] @ '']'' @ [NL]"
  let ?fs1 = "\<lparr>files = [''assets/__init__.py'' \<mapsto> ?c], dirs = {},
               writeLog = [(''assets/__init__.py'', ?c)]\<rparr>"
  have 1: "CHR '']'' \<notin> set ''a1''" by simp
  have c: "updateInitContent [] ''a1'' = Some ?c" by code_simp
  have 2: "updateInitFile ''assets/__init__.py'' ''a1'' ?fs = Inr ?fs1"
    by (simp add: updateInitFile_def existsSync_def c writeFile_def)
  from updateInitFile_idempotent [OF 1 2] 2 show ?thesis by simp
qed

subsection \<open>Rewriting the exported-symbols list\<close>

lemma getSubstitution_plain:
  "CHR ''$'' \<notin> set t \<Longrightarrow> getSubstitution m pre post caps t = t"
  by (induction m pre post caps t rule: getSubstitution.induct) auto

lemma set_trim: "set (trim s) \<subseteq> set s"
proof -
  have "set (trim s) = set (dropWhile isSpace (rev (dropWhile isSpace s)))"
    by (simp add: trim_def)
  also have "\<dots> \<subseteq> set (rev (dropWhile isSpace s))" by (rule set_dropWhileD [THEN subsetI])
  also have "\<dots> \<subseteq> set s" using set_dropWhileD [of _ isSpace s] by auto
  finally show ?thesis .
qed

lemma set_split: "x \<in> set (split c s) \<Longrightarrow> set x \<subseteq> set s"
proof (induction s arbitrary: x)
  case Nil
  then show ?case by simp
next
  case (Cons a s)
  show ?case
  proof (cases "a = c")
    case True
    with Cons show ?thesis by auto
  next
    case False
    obtain y ys where y: "split c s = y # ys" using split_not_Nil [of c s] by (cases "split c s") auto
    with False Cons.prems have "x = a # y \<or> x \<in> set ys" by simp
    then show ?thesis
    proof
      assume "x = a # y"
      moreover have "set y \<subseteq> set s" using Cons.IH [of y] y by simp
      ultimately show ?thesis by auto
    next
      assume "x \<in> set ys"
      then have "set x \<subseteq> set s" using Cons.IH [of x] y by simp
      then show ?thesis by auto
    qed
  qed
qed

lemma set_join: "set (join sep xs) \<subseteq> set sep \<union> \<Union> (set ` set xs)"
  by (induction sep xs rule: join.induct) auto

lemma set_existingItems: "item \<in> set (existingItems g) \<Longrightarrow> set item \<subseteq> set g"
proof -
  assume "item \<in> set (existingItems g)"
  then obtain x where x: "x \<in> set (split (CHR '','') g)" "item = stripQuotes (trim x)"
    by (auto simp add: existingItems_def)
  then have "set item \<subseteq> set (trim x)" by (auto simp add: stripQuotes_def)
  also have "\<dots> \<subseteq> set x" by (rule set_trim)
  also have "\<dots> \<subseteq> set g" using x(1) by (rule set_split)
  finally show ?thesis .
qed

lemma existingItems_bare:
  "item \<in> set (existingItems g) \<Longrightarrow> SQ \<notin> set item \<and> DQ \<notin> set item"
  by (auto simp add: existingItems_def stripQuotes_def)

text \<open>
  C10, as stated for every rewrite, fails where the list holds a dollar sign: the members
  are put bare into the replacement text of \<open>replace\<close>, and there \<open>$&\<close> stands for the
  matched text. The old member \<open>$&\<close> is written back as the whole old list.
\<close>

theorem rewrite_strips_quotes_counterexample:
  "regexSearch allHere [] ((''__all__ = ['' @ [DQ] @ ''$&'' @ [DQ] @ '']'' @ [NL]) @ importLine ''b'' @ [NL])
     = Some ([], ''__all__ = ['' @ [DQ] @ ''$&'' @ [DQ] @ '']'', [[DQ] @ ''$&'' @ [DQ]],
             [NL] @ ''from .b import b'' @ [NL])
   \<and> existingItems ([DQ] @ ''$&'' @ [DQ]) = [''$&'']
   \<and> updateInitContent (''__all__ = ['' @ [DQ] @ ''$&'' @ [DQ] @ '']'' @ [NL]) ''b''
     = Some (''__all__ = [__all__ = ['' @ [DQ] @ ''$&'' @ [DQ] @ ''], '' @ [DQ] @ ''b'' @ [DQ] @ '']''
             @ [NL] @ ''from .b import b'' @ [NL])
   \<and> updateInitContent (''__all__ = ['' @ [DQ] @ ''$&'' @ [DQ] @ '']'' @ [NL]) ''b''
     \<noteq> Some (''__all__ = ['' @ join '', '' [''$&'', [DQ] @ ''b'' @ [DQ]] @ '']''
             @ [NL] @ ''from .b import b'' @ [NL])"
  by code_simp

text \<open>
  C10, amended. When \<open>updateInitFile\<close> rewrites an existing list for a name that is not
  yet in it, and neither the old list nor the name holds a dollar sign, the text written
  is the text read with the import line appended and the list replaced by
  \<open>__all__ = [...]\<close>: the old members that are not empty, in their order, trimmed and
  without any single or double quote, then the new name in double quotes.
\<close>

theorem rewrite_strips_quotes:
  assumes "\<not> includesStr content (importLine itemName)"
    and "regexSearch allHere [] (content @ importLine itemName @ [NL]) = Some (pre, matched, [g], post)"
    and "itemName \<notin> set (existingItems g)"
    and "CHR ''$'' \<notin> set g" "CHR ''$'' \<notin> set itemName"
  shows "updateInitContent content itemName
           = Some (pre @ ''__all__ = [''
                   @ join '', '' (filter (\<lambda>item. item \<noteq> []) (existingItems g)
                                 @ [[DQ] @ itemName @ [DQ]])
                   @ '']'' @ post)
         \<and> (\<forall>item \<in> set (existingItems g). SQ \<notin> set item \<and> DQ \<notin> set item)"
proof -
  let ?items = "filter (\<lambda>item. item \<noteq> []) (existingItems g) @ [[DQ] @ itemName @ [DQ]]"
  let ?t = "''__all__ = ['' @ join '', '' ?items @ '']''"
  have "\<forall>item \<in> set ?items. CHR ''$'' \<notin> set item"
    using assms(4,5) set_existingItems [of _ g] by auto
  then have "CHR ''$'' \<notin> set (join '', '' ?items)"
    using set_join [of "'', ''" ?items] by auto
  then have "CHR ''$'' \<notin> set ?t" by simp
  then have "getSubstitution matched pre post [g] ?t = ?t" by (rule getSubstitution_plain)
  then have "updateInitContent content itemName = Some (pre @ ?t @ post)"
    using assms(1,2,3) by (simp add: updateInitContent_def regexReplace_def)
  then show ?thesis using existingItems_bare by simp
qed

theorem rewrite_strips_quotes_witness:
  "updateInitContent (''from .a import a'' @ [NL, NL] @ ''__all__ = ['' @ [DQ] @ ''a'' @ [DQ] @ '', ''
                      @ [SQ] @ ''b'' @ [SQ] @ '']'' @ [NL]) ''c''
     = Some (''from .a import a'' @ [NL, NL] @ ''__all__ = [a, b, '' @ [DQ] @ ''c'' @ [DQ] @ '']''
             @ [NL] @ ''from .c import c'' @ [NL])"
proof -
  let ?c = "''from .a import a'' @ [NL, NL] @ ''__all__ = ['' @ [DQ] @ ''a'' @ [DQ] @ '', ''
                      @ [SQ] @ ''b'' @ [SQ] @ '']'' @ [NL]"
  let ?g = "[DQ] @ ''a'' @ [DQ] @ '', '' @ [SQ] @ ''b'' @ [SQ]"
  have 1: "\<not> includesStr ?c (importLine ''c'')" by code_simp
  have 2: "regexSearch allHere [] (?c @ importLine ''c'' @ [NL])
      = Some (''from .a import a'' @ [NL, NL], ''__all__ = ['' @ ?g @ '']'', [?g],
              [NL] @ ''from .c import c'' @ [NL])" by code_simp
  have 3: "''c'' \<notin> set (existingItems ?g)" by code_simp
  have 4: "CHR ''$'' \<notin> set ?g" by simp
  have 5: "CHR ''$'' \<notin> set ''c''" by simp
  have 6: "join '', '' (filter (\<lambda>item. item \<noteq> []) (existingItems ?g) @ [[DQ] @ ''c'' @ [DQ]])
      = ''a, b, '' @ [DQ] @ ''c'' @ [DQ]" by code_simp
  from rewrite_strips_quotes [OF 1 2 3 4 5] show ?thesis unfolding 6 by simp
qed

subsection \<open>The members of the exported-symbols list\<close>





















text \<open>
  A call of \<open>updateInitFile\<close> on a path that is not a directory returns, and the text of
  the index file after it is \<open>register\<close> of the text before it (the empty text for a
  file that does not exist).
\<close>

lemma updateInitFile_register:
  assumes "initPath \<notin> dirs fs"
  shows "\<exists>fs'. updateInitFile initPath itemName fs = Inr fs'
           \<and> (case files fs' initPath of None \<Rightarrow> [] | Some c \<Rightarrow> c)
               = register (case files fs initPath of None \<Rightarrow> [] | Some c \<Rightarrow> c) itemName"
proof (cases "files fs initPath")
  case None
  with assms show ?thesis
    by (cases "updateInitContent [] itemName")
       (simp_all add: updateInitFile_def existsSync_def register_def writeFile_def)
next
  case (Some c)
  with assms show ?thesis
    by (cases "updateInitContent c itemName")
       (simp_all add: updateInitFile_def existsSync_def readFile_def register_def writeFile_def)
qed




subsection \<open>The configuration header of a model\<close>

text \<open>
  C4, as stated for every text, fails. Only the first header that the pattern matches is
  replaced, so a text with two headers keeps two; and \<open>{{ config() }}\<close> counts as a header
  for the test \<open>includes\<close> but is not matched by the pattern, which asks for at least one
  character between the parentheses: the text comes back unchanged, without the new
  materialization.
\<close>

theorem addModelConfig_counterexample:
  "addModelConfig ''{{ config(a) }} {{ config(b) }}'' ''table'' []
     = ''{{ config(materialized='' @ [SQ] @ ''table'' @ [SQ] @ '') }} {{ config(b) }}''
   \<and> headerCount (addModelConfig ''{{ config(a) }} {{ config(b) }}'' ''table'' []) = 2
   \<and> includesStr ''{{ config() }}'' ''{{ config(''
   \<and> addModelConfig ''{{ config() }}'' ''table'' [] = ''{{ config() }}''
   \<and> \<not> includesStr (addModelConfig ''{{ config() }}'' ''table'' []) ''table''"
  by code_simp

lemma countOcc_append:
  "p \<noteq> [] \<Longrightarrow> countOcc p (a @ b) = countIn p a b + countOcc p b"
  by (induction a) simp_all

lemma countIn_cong:
  assumes "take (length p - 1) b = take (length p - 1) b'"
  shows "countIn p a b = countIn p a b'"
proof (induction a)
  case Nil
  show ?case by simp
next
  case (Cons c a)
  have "take (length p - 1 - length a) b = take (length p - 1 - length a) b'"
    using assms by (metis diff_le_self min.absorb1 take_take)
  then have "take (length p) (c # a @ b) = take (length p) (c # a @ b')"
    by (cases p) simp_all
  then have "startsWith (c # a @ b) p = startsWith (c # a @ b') p"
    by (simp add: startsWith_def)
  with Cons show ?case by simp
qed

lemma countIn_none: "p \<noteq> [] \<Longrightarrow> hd p \<notin> set a \<Longrightarrow> countIn p a b = 0"
proof (induction a)
  case Nil
  show ?case by simp
next
  case (Cons c a)
  then have "c \<noteq> hd p" by auto
  with Cons.prems(1) have "\<not> startsWith (c # a @ b) p"
    by (cases p) (auto simp add: startsWith_def)
  with Cons show ?case by simp
qed

lemma countOcc_none: "p \<noteq> [] \<Longrightarrow> hd p \<notin> set s \<Longrightarrow> countOcc p s = 0"
  using countOcc_append [of p s "[]"] countIn_none [of p s "[]"] by simp

lemma startsWith_newline:
  assumes "NL \<notin> set p"
  shows "startsWith (u @ NL # r) p \<longleftrightarrow> startsWith u p"
proof
  assume "startsWith u p"
  then show "startsWith (u @ NL # r) p" unfolding startsWith_iff by auto
next
  assume a: "startsWith (u @ NL # r) p"
  show "startsWith u p"
  proof (cases "length p \<le> length u")
    case True
    with a show ?thesis by (simp add: startsWith_def)
  next
    case False
    then have "length u < length p" by simp
    moreover from a have "take (length p) (u @ NL # r) = p" by (simp add: startsWith_def)
    ultimately have "p ! length u = NL"
      by (metis nth_append_length nth_take)
    with \<open>length u < length p\<close> assms show ?thesis by (metis nth_mem)
  qed
qed

lemma countIn_newline:
  "p \<noteq> [] \<Longrightarrow> NL \<notin> set p \<Longrightarrow> countIn p x (NL # r) = countOcc p x"
proof (induction x)
  case Nil
  then show ?case by simp
next
  case (Cons c x)
  have "startsWith (c # x @ NL # r) p = startsWith (c # x) p"
    using startsWith_newline [OF Cons.prems(2), of "c # x" r] by simp
  with Cons show ?case by simp
qed

lemma countOcc_newline:
  assumes "p \<noteq> []" "NL \<notin> set p"
  shows "countOcc p (x @ NL # r) = countOcc p x + countOcc p r"
proof -
  have "\<not> startsWith (NL # r) p"
    using assms by (cases p) (auto simp add: startsWith_def)
  then show ?thesis
    using assms by (simp add: countOcc_append countIn_newline)
qed

lemma countOcc_join:
  assumes "p \<noteq> []" "NL \<notin> set p"
  shows "countOcc p (join [NL] ls) = sum_list (map (countOcc p) ls)"
  using assms by (induction "[NL]" ls rule: join.induct) (simp_all add: countOcc_newline)

lemma findIndex_Some:
  "findIndex P xs = Some i \<longleftrightarrow> i < length xs \<and> P (xs ! i) \<and> (\<forall>j < i. \<not> P (xs ! j))"
proof (induction xs arbitrary: i)
  case Nil
  show ?case by simp
next
  case (Cons x xs)
  show ?case
  proof (cases "P x")
    case True
    then show ?thesis by (cases i) auto
  next
    case False
    show ?thesis
    proof (cases i)
      case 0
      with False show ?thesis by auto
    next
      case (Suc k)
      have "(\<forall>j < Suc k. \<not> P ((x # xs) ! j)) \<longleftrightarrow> (\<forall>j < k. \<not> P (xs ! j))"
        using False by (auto simp add: less_Suc_eq_0_disj)
      with False Suc Cons.IH [of k] show ?thesis by auto
    qed
  qed
qed

lemma findIndex_None: "findIndex P xs = None \<longleftrightarrow> (\<forall>x \<in> set xs. \<not> P x)"
  by (induction xs) auto

lemma configLine_args: "configLine m tags = ''{{ config('' @ configArgs m tags @ '') }}''"
  unfolding configLine_def configArgs_def by (rule refl)

lemma configArgs_plain:
  assumes "\<forall>t \<in> set (m # tags). x \<notin> set t" "x \<notin> set (''materialized=tags[], '' @ [SQ])"
  shows "x \<notin> set (configArgs m tags)"
proof -
  let ?sep = "[SQ] @ '', '' @ [SQ]"
  let ?first = "''materialized='' @ [SQ] @ m @ [SQ]"
  let ?second = "''tags=['' @ [SQ] @ join ?sep tags @ [SQ] @ '']''"
  have "set (join ?sep tags) \<subseteq> set ?sep \<union> \<Union> (set ` set tags)" by (rule set_join)
  moreover have "x \<notin> set ?sep" using assms(2) by simp
  moreover have "x \<notin> \<Union> (set ` set tags)" using assms(1) by simp
  ultimately have j: "x \<notin> set (join ?sep tags)" by blast
  have 1: "x \<notin> set ?first" using assms by simp
  have 2: "x \<notin> set ?second" using assms(2) j by simp
  have 3: "x \<notin> set '', ''" using assms(2) by simp
  show ?thesis
  proof (cases "tags = []")
    case True
    then have "configArgs m tags = ?first" by (simp add: configArgs_def)
    with 1 show ?thesis by simp
  next
    case False
    then have "configArgs m tags = ?first @ '', '' @ ?second" by (simp add: configArgs_def)
    with 1 2 3 show ?thesis by (simp only: set_append Un_iff) blast
  qed
qed

lemma configLine_materialized:
  "includesStr (pre @ configLine m tags @ post) (''materialized='' @ [SQ] @ m @ [SQ])"
proof (cases "tags = []")
  case True
  then have "pre @ configLine m tags @ post
      = (pre @ ''{{ config('') @ (''materialized='' @ [SQ] @ m @ [SQ]) @ ('') }}'' @ post)"
    by (simp add: configLine_def)
  then show ?thesis unfolding includesStr_iff by blast
next
  case False
  then have "pre @ configLine m tags @ post
      = (pre @ ''{{ config('') @ (''materialized='' @ [SQ] @ m @ [SQ])
        @ ('', '' @ ''tags=['' @ [SQ] @ join ([SQ] @ '', '' @ [SQ]) tags @ [SQ] @ '']'' @ '') }}'' @ post)"
    by (simp add: configLine_def)
  then show ?thesis unfolding includesStr_iff by blast
qed

lemma headerCount_tail:
  assumes "CHR ''{'' \<notin> set y"
  shows "countIn ''{{ config('' (''{ config('' @ y @ '') }}'') post = 0"
proof -
  have "\<not> startsWith (''{ config('' @ y @ '') }}'' @ post) ''{{ config(''"
    by (simp add: startsWith_def)
  moreover have "countIn ''{{ config('' ('' config('' @ y @ '') }}'') post = 0"
    using assms by (intro countIn_none) simp_all
  ultimately show ?thesis by simp
qed

lemma headerCount_replaced:
  assumes one: "headerCount (pre @ ''{{ config('' @ args @ '') }}'' @ post) = 1"
    and y: "CHR ''{'' \<notin> set y"
  shows "headerCount (pre @ ''{{ config('' @ y @ '') }}'' @ post) = 1"
proof -
  let ?p = "''{{ config(''"
  have split_old: "countOcc ?p (pre @ ?p @ args @ '') }}'' @ post)
      = countIn ?p pre (?p @ args @ '') }}'' @ post)
        + (1 + countOcc ?p (''{ config('' @ args @ '') }}'' @ post))"
    by (simp add: countOcc_append startsWith_def)
  with one have pre0: "countIn ?p pre (?p @ args @ '') }}'' @ post) = 0"
    and rest0: "countOcc ?p (''{ config('' @ args @ '') }}'' @ post) = 0"
    by (simp_all add: headerCount_def)
  have "countOcc ?p ((''{ config('' @ args @ '') }}'') @ post)
      = countIn ?p (''{ config('' @ args @ '') }}'') post + countOcc ?p post"
    by (rule countOcc_append) simp
  with rest0 have post0: "countOcc ?p post = 0" by simp
  have "countIn ?p pre (?p @ y @ '') }}'' @ post) = countIn ?p pre (?p @ args @ '') }}'' @ post)"
    by (rule countIn_cong) simp
  with pre0 have pre1: "countIn ?p pre (?p @ y @ '') }}'' @ post) = 0" by simp
  have "countOcc ?p ((''{ config('' @ y @ '') }}'') @ post)
      = countIn ?p (''{ config('' @ y @ '') }}'') post + countOcc ?p post"
    by (rule countOcc_append) simp
  with headerCount_tail [OF y] post0
  have rest1: "countOcc ?p (''{ config('' @ y @ '') }}'' @ post) = 0" by simp
  have "countOcc ?p (pre @ ?p @ y @ '') }}'' @ post)
      = countIn ?p pre (?p @ y @ '') }}'' @ post)
        + (1 + countOcc ?p (''{ config('' @ y @ '') }}'' @ post))"
    by (simp add: countOcc_append startsWith_def)
  with pre1 rest1 show ?thesis by (simp add: headerCount_def)
qed

lemma headerCount_line:
  assumes "CHR ''{'' \<notin> set y"
  shows "countOcc ''{{ config('' (''{{ config('' @ y @ '') }}'') = 1"
proof -
  have "countOcc ''{{ config('' ((''{ config('' @ y @ '') }}'') @ [])
      = countIn ''{{ config('' (''{ config('' @ y @ '') }}'') [] + countOcc ''{{ config('' []"
    by (rule countOcc_append) simp
  with headerCount_tail [OF assms, of "[]"]
  have "countOcc ''{{ config('' (''{ config('' @ y @ '') }}'') = 0" by simp
  then show ?thesis by (simp add: startsWith_def)
qed

lemma countIn_zero:
  "countIn p a b = 0 \<Longrightarrow> k < length a \<Longrightarrow> \<not> startsWith (drop k a @ b) p"
proof (induction a arbitrary: k)
  case Nil
  then show ?case by simp
next
  case (Cons c a)
  then show ?case by (cases k) (auto split: if_splits)
qed

lemma countOcc_zero: "\<not> includesStr s p \<Longrightarrow> countOcc p s = 0"
  by (induction s) auto

lemma configHere_header:
  assumes "args \<noteq> []" "CHR ''}'' \<notin> set args"
  shows "configHere (''{{ config('' @ args @ '') }}'' @ post)
     = Some (length (''{{ config('' @ args @ '') }}''), [])"
proof -
  let ?s = "''{{ config('' @ args @ '') }}'' @ post"
  have r: "drop 10 ?s = (args @ '') '') @ CHR ''}'' # (''}'' @ post)" by simp
  have run: "takeWhile (\<lambda>c. c \<noteq> CHR ''}'') (drop 10 ?s) = args @ '') ''"
    unfolding r using assms(2) by (subst takeWhile_tail) (auto simp add: takeWhile_append)
  have rest: "dropWhile (\<lambda>c. c \<noteq> CHR ''}'') (drop 10 ?s) = ''}}'' @ post"
    unfolding r using assms(2) by (simp add: dropWhile_append)
  have 1: "startsWith ?s ''{{ config(''" by (simp add: startsWith_def)
  have 2: "3 \<le> length (args @ '') '')" using assms(1) by (cases args) simp_all
  have 3: "drop (length (args @ '') '') - 2) (args @ '') '') = '') ''" by simp
  have 4: "startsWith (''}}'' @ post) ''}}''" by (simp add: startsWith_def)
  show ?thesis
    unfolding configHere_def Let_def run rest
    using 1 2 3 4 by (simp only: if_True simp_thms) simp
qed

lemma search_header:
  assumes "args \<noteq> []" "CHR ''}'' \<notin> set args"
    and "headerCount (pre @ ''{{ config('' @ args @ '') }}'' @ post) = 1"
  shows "regexSearch configHere [] (pre @ ''{{ config('' @ args @ '') }}'' @ post)
     = Some (pre, ''{{ config('' @ args @ '') }}'', [], post)"
proof -
  define h where "h = ''{{ config('' @ args @ '') }}''"
  let ?p = "''{{ config(''"
  have "countOcc ?p (pre @ h @ post) = countIn ?p pre (h @ post) + countOcc ?p (h @ post)"
    by (rule countOcc_append) simp
  moreover have "1 \<le> countOcc ?p (h @ post)" by (simp add: h_def startsWith_def)
  ultimately have zero: "countIn ?p pre (h @ post) = 0"
    using assms(3) by (simp add: headerCount_def h_def)
  have "\<forall>k < length pre. configHere (drop k pre @ h @ post) = None"
  proof (intro allI impI)
    fix k assume "k < length pre"
    with zero have "\<not> startsWith (drop k pre @ h @ post) ?p" by (rule countIn_zero)
    then show "configHere (drop k pre @ h @ post) = None" by (simp add: configHere_def)
  qed
  then have "regexSearch configHere [] (pre @ h @ post) = regexSearch configHere ([] @ pre) (h @ post)"
    by (rule regexSearch_skip)
  moreover have "configHere (h @ post) = Some (length h, [])"
    using configHere_header [OF assms(1,2), of post] by (simp add: h_def)
  ultimately have "regexSearch configHere [] (pre @ h @ post) = Some (pre, h, [], post)"
    using regexSearch_here [of configHere "h @ post" "length h" "[]" pre] by simp
  then show ?thesis by (simp add: h_def)
qed

lemma addModelConfig_replace:
  assumes plain: "\<forall>t \<in> set (m # tags). CHR ''{'' \<notin> set t \<and> CHR ''$'' \<notin> set t"
    and sql: "sql = pre @ ''{{ config('' @ args @ '') }}'' @ post"
    and args: "args \<noteq> []" "CHR ''}'' \<notin> set args"
    and one: "headerCount sql = 1"
  shows "addModelConfig sql m tags = pre @ configLine m tags @ post"
    and "headerCount (addModelConfig sql m tags) = 1"
proof -
  have brace: "CHR ''{'' \<notin> set (configArgs m tags)"
    using plain by (intro configArgs_plain) simp_all
  have "CHR ''$'' \<notin> set (configArgs m tags)"
    using plain by (intro configArgs_plain) simp_all
  then have "CHR ''$'' \<notin> set (configLine m tags)" by (simp add: configLine_args)
  then have sub: "getSubstitution h pre post [] (configLine m tags) = configLine m tags" for h
    by (rule getSubstitution_plain)
  define h where "h = ''{{ config('' @ args @ '') }}''"
  have inc: "includesStr sql ''{{ config(''"
    unfolding includesStr_iff sql by blast
  have found: "regexSearch configHere [] sql = Some (pre, h, [], post)"
    using search_header [OF args] one unfolding sql h_def by simp
  show out: "addModelConfig sql m tags = pre @ configLine m tags @ post"
    unfolding addModelConfig_def regexReplace_def found using inc sub by simp
  have "headerCount (pre @ ''{{ config('' @ configArgs m tags @ '') }}'' @ post) = 1"
    using one brace unfolding sql by (rule headerCount_replaced)
  then show "headerCount (addModelConfig sql m tags) = 1"
    unfolding out configLine_args by simp
qed

lemma addModelConfig_insert:
  assumes plain: "\<forall>t \<in> set (m # tags). CHR ''{'' \<notin> set t \<and> CHR ''$'' \<notin> set t"
    and none: "\<not> includesStr sql ''{{ config(''"
  shows "headerCount (addModelConfig sql m tags) = 1"
    and "findIndex nonCommentLine (split NL sql) = Some i \<Longrightarrow>
       addModelConfig sql m tags
         = join [NL] (take i (split NL sql) @ [configLine m tags, []] @ drop i (split NL sql))"
    and "findIndex nonCommentLine (split NL sql) = None \<Longrightarrow>
       addModelConfig sql m tags = configLine m tags @ [NL, NL] @ sql"
proof -
  let ?p = "''{{ config(''"
  let ?ls = "split NL sql"
  have brace: "CHR ''{'' \<notin> set (configArgs m tags)"
    using plain by (intro configArgs_plain) simp_all
  have line: "countOcc ?p (configLine m tags) = 1"
    unfolding configLine_args using brace by (rule headerCount_line)
  have zero: "countOcc ?p sql = 0" using none by (rule countOcc_zero)
  have cj: "countOcc ?p (join [NL] ls) = sum_list (map (countOcc ?p) ls)" for ls
    by (rule countOcc_join) simp_all
  have "sum_list (map (countOcc ?p) ?ls) = 0"
    using cj [of ?ls] zero by (simp add: join_split)
  then have lines0: "sum_list (map (countOcc ?p) (take i ?ls)) + sum_list (map (countOcc ?p) (drop i ?ls)) = 0"
    for i
    by (metis append_take_drop_id map_append sum_list.append)
  show inserted: "addModelConfig sql m tags
         = join [NL] (take i ?ls @ [configLine m tags, []] @ drop i ?ls)"
    if "findIndex nonCommentLine ?ls = Some i" for i
    using none that by (simp add: addModelConfig_def Let_def)
  show prepended: "addModelConfig sql m tags = configLine m tags @ [NL, NL] @ sql"
    if "findIndex nonCommentLine ?ls = None"
    using none that by (simp add: addModelConfig_def Let_def)
  show "headerCount (addModelConfig sql m tags) = 1"
  proof (cases "findIndex nonCommentLine ?ls")
    case None
    have "configLine m tags @ [NL, NL] @ sql = join [NL] [configLine m tags, [], sql]"
      by simp
    then have "countOcc ?p (configLine m tags @ [NL, NL] @ sql)
        = sum_list (map (countOcc ?p) [configLine m tags, [], sql])"
      by (simp only: cj)
    with line zero have "countOcc ?p (configLine m tags @ [NL, NL] @ sql) = 1" by simp
    moreover have "addModelConfig sql m tags = configLine m tags @ [NL, NL] @ sql"
      using None by (rule prepended)
    ultimately show ?thesis by (simp only: headerCount_def)
  next
    case (Some i)
    have "countOcc ?p (join [NL] (take i ?ls @ [configLine m tags, []] @ drop i ?ls))
        = sum_list (map (countOcc ?p) (take i ?ls)) + 1 + sum_list (map (countOcc ?p) (drop i ?ls))"
      unfolding cj using line by simp
    with lines0 [of i]
    have "countOcc ?p (join [NL] (take i ?ls @ [configLine m tags, []] @ drop i ?ls)) = 1"
      by simp
    moreover have "addModelConfig sql m tags
         = join [NL] (take i ?ls @ [configLine m tags, []] @ drop i ?ls)"
      using Some by (rule inserted)
    ultimately show ?thesis by (simp only: headerCount_def)
  qed
qed

text \<open>
  C4, amended. Let the materialization and the tags hold neither a brace \<open>{\<close> nor a
  dollar sign. If the text holds exactly one \<open>{{ config(\<close> and it opens a header
  \<open>{{ config(...) }}\<close> whose options are not empty and hold no closing brace, the output
  is the text with that header replaced by the new configuration line; it holds exactly
  one header, with the new materialization. If the text holds no \<open>{{ config(\<close>, the
  output holds exactly one header: the configuration line and an empty line are put
  before the first line that is neither blank nor a \<open>--\<close> comment, or before the whole
  text when there is no such line.
\<close>

theorem addModelConfig_header:
  assumes "\<forall>t \<in> set (m # tags). CHR ''{'' \<notin> set t \<and> CHR ''$'' \<notin> set t"
  shows "(sql = pre @ ''{{ config('' @ args @ '') }}'' @ post \<and> args \<noteq> []
            \<and> CHR ''}'' \<notin> set args \<and> headerCount sql = 1
          \<longrightarrow> addModelConfig sql m tags = pre @ configLine m tags @ post
              \<and> headerCount (addModelConfig sql m tags) = 1
              \<and> includesStr (addModelConfig sql m tags) (''materialized='' @ [SQ] @ m @ [SQ]))
       \<and> (\<not> includesStr sql ''{{ config(''
          \<longrightarrow> headerCount (addModelConfig sql m tags) = 1
              \<and> (\<forall>i < length (split NL sql).
                    nonCommentLine (split NL sql ! i)
                    \<and> (\<forall>j < i. \<not> nonCommentLine (split NL sql ! j))
                    \<longrightarrow> addModelConfig sql m tags
                          = join [NL] (take i (split NL sql) @ [configLine m tags, []]
                                       @ drop i (split NL sql)))
              \<and> ((\<forall>l \<in> set (split NL sql). \<not> nonCommentLine l)
                    \<longrightarrow> addModelConfig sql m tags = configLine m tags @ [NL, NL] @ sql))"
proof (intro conjI impI allI)
  assume a: "sql = pre @ ''{{ config('' @ args @ '') }}'' @ post \<and> args \<noteq> []
            \<and> CHR ''}'' \<notin> set args \<and> headerCount sql = 1"
  then have s: "sql = pre @ ''{{ config('' @ args @ '') }}'' @ post" and n: "args \<noteq> []"
    and b: "CHR ''}'' \<notin> set args" and o: "headerCount sql = 1" by blast+
  note r = addModelConfig_replace [OF assms s n b o]
  show "addModelConfig sql m tags = pre @ configLine m tags @ post" by (rule r(1))
  show "headerCount (addModelConfig sql m tags) = 1" by (rule r(2))
  show "includesStr (addModelConfig sql m tags) (''materialized='' @ [SQ] @ m @ [SQ])"
    unfolding r(1) by (rule configLine_materialized)
next
  assume none: "\<not> includesStr sql ''{{ config(''"
  show "headerCount (addModelConfig sql m tags) = 1"
    using assms none by (rule addModelConfig_insert(1))
  {
    fix i
    assume "i < length (split NL sql)"
      and "nonCommentLine (split NL sql ! i) \<and> (\<forall>j < i. \<not> nonCommentLine (split NL sql ! j))"
    then have "findIndex nonCommentLine (split NL sql) = Some i" by (simp add: findIndex_Some)
    then show "addModelConfig sql m tags
        = join [NL] (take i (split NL sql) @ [configLine m tags, []] @ drop i (split NL sql))"
      using addModelConfig_insert(2) [OF assms none] by simp
  }
  {
    assume "\<forall>l \<in> set (split NL sql). \<not> nonCommentLine l"
    then have "findIndex nonCommentLine (split NL sql) = None" by (simp add: findIndex_None)
    then show "addModelConfig sql m tags = configLine m tags @ [NL, NL] @ sql"
      using addModelConfig_insert(3) [OF assms none] by simp
  }
qed

theorem addModelConfig_header_witness:
  "addModelConfig (''{{ config(materialized='' @ [SQ] @ ''view'' @ [SQ] @ '') }}'' @ [NL, NL]
                   @ ''select * from users'') ''table'' []
     = ''{{ config(materialized='' @ [SQ] @ ''table'' @ [SQ] @ '') }}'' @ [NL, NL]
       @ ''select * from users''
   \<and> headerCount (addModelConfig (''{{ config(materialized='' @ [SQ] @ ''view'' @ [SQ] @ '') }}''
                                   @ [NL, NL] @ ''select * from users'') ''table'' []) = 1
   \<and> addModelConfig (''-- users'' @ [NL] @ ''select * from users'') ''table'' [''daily'', ''core'']
     = ''-- users'' @ [NL]
       @ ''{{ config(materialized='' @ [SQ] @ ''table'' @ [SQ] @ '', tags=['' @ [SQ] @ ''daily''
       @ [SQ] @ '', '' @ [SQ] @ ''core'' @ [SQ] @ '']) }}'' @ [NL, NL] @ ''select * from users''
   \<and> headerCount (addModelConfig (''-- users'' @ [NL] @ ''select * from users'') ''table''
                    [''daily'', ''core'']) = 1
   \<and> addModelConfig (''-- users'' @ [NL]) ''view'' []
     = ''{{ config(materialized='' @ [SQ] @ ''view'' @ [SQ] @ '') }}'' @ [NL, NL]
       @ ''-- users'' @ [NL]"
proof -
  let ?old = "''{{ config(materialized='' @ [SQ] @ ''view'' @ [SQ] @ '') }}'' @ [NL, NL]
                   @ ''select * from users''"
  have a1: "\<forall>t \<in> set (''table'' # []). CHR ''{'' \<notin> set t \<and> CHR ''$'' \<notin> set t" by simp
  have a2: "?old = [] @ ''{{ config('' @ (''materialized='' @ [SQ] @ ''view'' @ [SQ]) @ '') }}''
              @ ([NL, NL] @ ''select * from users'')
            \<and> ''materialized='' @ [SQ] @ ''view'' @ [SQ] \<noteq> []
            \<and> CHR ''}'' \<notin> set (''materialized='' @ [SQ] @ ''view'' @ [SQ])
            \<and> headerCount ?old = 1"
    by code_simp
  have a3: "[] @ configLine ''table'' [] @ ([NL, NL] @ ''select * from users'')
      = ''{{ config(materialized='' @ [SQ] @ ''table'' @ [SQ] @ '') }}'' @ [NL, NL]
        @ ''select * from users''"
    by code_simp
  note A = addModelConfig_header [where m = "''table''" and tags = "[]" and sql = ?old
      and pre = "[]" and args = "''materialized='' @ [SQ] @ ''view'' @ [SQ]"
      and post = "[NL, NL] @ ''select * from users''", OF a1, THEN conjunct1, THEN mp, OF a2]
  have A1: "addModelConfig ?old ''table'' []
      = ''{{ config(materialized='' @ [SQ] @ ''table'' @ [SQ] @ '') }}'' @ [NL, NL]
        @ ''select * from users''"
    using A [THEN conjunct1] unfolding a3 .
  have A2: "headerCount (addModelConfig ?old ''table'' []) = 1"
    using A [THEN conjunct2, THEN conjunct1] .
  let ?new = "''-- users'' @ [NL] @ ''select * from users''"
  have b1: "\<forall>t \<in> set (''table'' # [''daily'', ''core'']). CHR ''{'' \<notin> set t \<and> CHR ''$'' \<notin> set t"
    by simp
  have b2: "\<not> includesStr ?new ''{{ config(''" by code_simp
  have b3: "split NL ?new = [''-- users'', ''select * from users'']" by code_simp
  have b4: "nonCommentLine ''select * from users''" "\<not> nonCommentLine ''-- users''"
    by code_simp+
  have b5: "join [NL] (take 1 (split NL ?new) @ [configLine ''table'' [''daily'', ''core''], []]
                       @ drop 1 (split NL ?new))
      = ''-- users'' @ [NL]
       @ ''{{ config(materialized='' @ [SQ] @ ''table'' @ [SQ] @ '', tags=['' @ [SQ] @ ''daily''
       @ [SQ] @ '', '' @ [SQ] @ ''core'' @ [SQ] @ '']) }}'' @ [NL, NL] @ ''select * from users''"
    by code_simp
  have b6: "1 < length (split NL ?new)" unfolding b3 by simp
  have b7: "nonCommentLine (split NL ?new ! 1) \<and> (\<forall>j < 1. \<not> nonCommentLine (split NL ?new ! j))"
    unfolding b3 using b4 by simp
  note B = addModelConfig_header [where m = "''table''" and tags = "[''daily'', ''core'']"
      and sql = ?new, OF b1, THEN conjunct2, THEN mp, OF b2]
  have B1: "addModelConfig ?new ''table'' [''daily'', ''core'']
      = ''-- users'' @ [NL]
       @ ''{{ config(materialized='' @ [SQ] @ ''table'' @ [SQ] @ '', tags=['' @ [SQ] @ ''daily''
       @ [SQ] @ '', '' @ [SQ] @ ''core'' @ [SQ] @ '']) }}'' @ [NL, NL] @ ''select * from users''"
    using B [THEN conjunct2, THEN conjunct1, rule_format, OF b6 b7] unfolding b5 .
  have B2: "headerCount (addModelConfig ?new ''table'' [''daily'', ''core'']) = 1"
    using B [THEN conjunct1] .
  let ?only = "''-- users'' @ [NL]"
  have c1: "\<forall>t \<in> set (''view'' # []). CHR ''{'' \<notin> set t \<and> CHR ''$'' \<notin> set t" by simp
  have c2: "\<not> includesStr ?only ''{{ config(''" by code_simp
  have c3: "\<forall>l \<in> set (split NL ?only). \<not> nonCommentLine l" by code_simp
  have c4: "configLine ''view'' [] @ [NL, NL] @ ?only
      = ''{{ config(materialized='' @ [SQ] @ ''view'' @ [SQ] @ '') }}'' @ [NL, NL] @ ''-- users'' @ [NL]"
    by code_simp
  note C = addModelConfig_header [where m = "''view''" and tags = "[]" and sql = ?only,
      OF c1, THEN conjunct2, THEN mp, OF c2, THEN conjunct2, THEN conjunct2, THEN mp, OF c3]
  have C1: "addModelConfig ?only ''view'' []
      = ''{{ config(materialized='' @ [SQ] @ ''view'' @ [SQ] @ '') }}'' @ [NL, NL] @ ''-- users'' @ [NL]"
    using C unfolding c4 .
  from A1 A2 B1 B2 C1 show ?thesis by (intro conjI)
qed

end
